theory Spec2Isabelle
  imports Complex_Main
begin

section \<open>Optimal trading thresholds of an Ornstein-Uhlenbeck spread (Bertram 2010)\<close>

text \<open>
  The development embeds the class \<^verbatim>\<open>OUModelOptimalThresholdBertram\<close> of
  \<^verbatim>\<open>arbitragelab/time_series_approach/ou_optimal_threshold_Bertram.py\<close>.

  Numbers. The source computes with IEEE doubles. The embedding computes with the real
  numbers: rounding and overflow are left out, and every statement below is about this
  idealised arithmetic. The two places where double arithmetic leaves the reals without
  raising anything are kept: a numpy division by zero and the numpy square root of a
  negative number give \<open>inf\<close> or \<open>NaN\<close> together with a warning. The embedding stops
  there with the outcome \<open>NonFinite\<close> and does not follow the evaluation further.

  Exceptions. The source contains no \<^verbatim>\<open>raise\<close> and defines no exception class.
  The only exception its own arithmetic can raise is Python's \<^verbatim>\<open>ZeroDivisionError\<close>,
  raised by \<^verbatim>\<open>/\<close> between two Python floats. The other three constructors of
  \<open>error\<close> are the error kinds named by the specification; they are there so that
  statements about them can be written, and no definition below produces them.
\<close>

subsection \<open>Outcomes\<close>

datatype error = ZeroDivisionError | DomainError | NumericalError | ConvergenceError

datatype 'a result = Raise error | NonFinite | Return 'a

definition bind :: "'a result \<Rightarrow> ('a \<Rightarrow> 'b result) \<Rightarrow> 'b result" where
  "bind r f = (case r of Raise e \<Rightarrow> Raise e | NonFinite \<Rightarrow> NonFinite | Return v \<Rightarrow> f v)"

text \<open>\<^verbatim>\<open>x / y\<close> on two Python floats.\<close>

definition py_div :: "real \<Rightarrow> real \<Rightarrow> real result" where
  "py_div x y = (if y = 0 then Raise ZeroDivisionError else Return (x / y))"

text \<open>\<^verbatim>\<open>x / y\<close> where an operand is a \<^verbatim>\<open>numpy.float64\<close>: no exception, \<open>inf\<close> or \<open>NaN\<close>.\<close>

definition np_div :: "real \<Rightarrow> real \<Rightarrow> real result" where
  "np_div x y = (if y = 0 then NonFinite else Return (x / y))"

text \<open>\<^verbatim>\<open>np.sqrt(x)\<close>: \<open>NaN\<close> on a negative argument.\<close>

definition np_sqrt :: "real \<Rightarrow> real result" where
  "np_sqrt x = (if x < 0 then NonFinite else Return (sqrt x))"

subsection \<open>The parameter holder\<close>

text \<open>
  Modelled from the spec: the base class \<^verbatim>\<open>OUModelOptimalThreshold\<close> is not part of the
  sources at hand. The specification's data model gives it three float attributes,
  the long-run mean \<open>theta\<close>, the mean-reversion speed \<open>mu\<close> and the volatility \<open>sigma\<close>,
  set once and only read by the methods below.
\<close>

record ou_model =
  theta :: real
  mu :: real
  sigma :: real

subsection \<open>Special functions of the numeric libraries\<close>

text \<open>
  The library functions are given by their mathematical definitions, on the arguments
  where the source evaluates them.

  \<^verbatim>\<open>scipy.special.erfi\<close>, the imaginary error function, by its Maclaurin series
  \<open>erfi x = 2 / sqrt pi * (\<Sum>n. x ^ (2 n + 1) / (n! (2 n + 1)))\<close>.
\<close>

definition erfi_term :: "real \<Rightarrow> nat \<Rightarrow> real" where
  "erfi_term x n = x ^ (2 * n + 1) / (fact n * real (2 * n + 1))"

definition erfi :: "real \<Rightarrow> real" where
  "erfi x = 2 / sqrt pi * (\<Sum>n. erfi_term x n)"

text \<open>
  \<^verbatim>\<open>mpmath.gamma(k / 2)\<close> for \<open>k = 1, 2, \<dots>\<close>, the only arguments the source passes:
  \<open>\<Gamma>(1/2) = sqrt pi\<close>, \<open>\<Gamma>(1) = 1\<close> and \<open>\<Gamma>(x + 1) = x \<Gamma>(x)\<close>. The value at \<open>0\<close>
  (a pole of the gamma function) is never used.
\<close>

fun gamma_half :: "nat \<Rightarrow> real" where
  "gamma_half 0 = 0"
| "gamma_half (Suc 0) = sqrt pi"
| "gamma_half (Suc (Suc 0)) = 1"
| "gamma_half (Suc (Suc k)) = real k / 2 * gamma_half k"

text \<open>
  \<^verbatim>\<open>mpmath.digamma(k / 2)\<close> for \<open>k = 1, 2, \<dots>\<close>: \<open>\<psi>(1) = - \<gamma>\<close>,
  \<open>\<psi>(1/2) = - \<gamma> - 2 ln 2\<close> and \<open>\<psi>(x + 1) = \<psi>(x) + 1 / x\<close>, with \<open>\<gamma>\<close> the
  Euler-Mascheroni constant.
\<close>

definition euler_mascheroni :: real where
  "euler_mascheroni = lim (\<lambda>n. (\<Sum>k = 1..n. 1 / real k) - ln (real n))"

fun digamma_half :: "nat \<Rightarrow> real" where
  "digamma_half 0 = 0"
| "digamma_half (Suc 0) = - euler_mascheroni - 2 * ln 2"
| "digamma_half (Suc (Suc 0)) = - euler_mascheroni"
| "digamma_half (Suc (Suc k)) = digamma_half k + 2 / real k"

text \<open>\<^verbatim>\<open>mpmath.nsum(f, [1, inf])\<close>: the sum of \<open>f k\<close> over \<open>k = 1, 2, \<dots>\<close>.\<close>

definition nsum :: "(nat \<Rightarrow> real) \<Rightarrow> real" where
  "nsum f = (\<Sum>n. f (Suc n))"

subsection \<open>The analytic formulas\<close>

text \<open>\<^verbatim>\<open>special.erfi((const - self.theta) * np.sqrt(self.mu) / self.sigma)\<close>\<close>

definition erfi_scaler :: "ou_model \<Rightarrow> real \<Rightarrow> real result" where
  "erfi_scaler p const =
     bind (np_sqrt (mu p)) (\<lambda>s.
     bind (np_div ((const - theta p) * s) (sigma p)) (\<lambda>z.
     Return (erfi z)))"

text \<open>\<^verbatim>\<open>(np.pi / self.mu) * (self._erfi_scaler(m) - self._erfi_scaler(a))\<close>\<close>

definition expected_trade_length :: "ou_model \<Rightarrow> real \<Rightarrow> real \<Rightarrow> real result" where
  "expected_trade_length p a m =
     bind (py_div pi (mu p)) (\<lambda>q.
     bind (erfi_scaler p m) (\<lambda>em.
     bind (erfi_scaler p a) (\<lambda>ea.
     Return (q * (em - ea)))))"

text \<open>
  \<^verbatim>\<open>_w1\<close>:
  \<^verbatim>\<open>common_term = lambda k: gamma(k / 2) * ((1.414 * const) ** k) / fac(k)\<close>,
  \<^verbatim>\<open>term_1 = (nsum(common_term, [1, inf]) / 2) ** 2\<close>,
  \<^verbatim>\<open>term_2 = (nsum(lambda k: common_term(k) * ((-1) ** k), [1, inf]) / 2) ** 2\<close>,
  \<^verbatim>\<open>w1 = term_1 - term_2\<close>.
\<close>

definition common_term :: "real \<Rightarrow> nat \<Rightarrow> real" where
  "common_term const k = gamma_half k * (1414 / 1000 * const) ^ k / fact k"

text \<open>The second lambda of \<^verbatim>\<open>_w1\<close>: \<^verbatim>\<open>lambda k: common_term(k) * ((-1) ** k)\<close>.\<close>

definition alternating_term :: "real \<Rightarrow> nat \<Rightarrow> real" where
  "alternating_term const k = common_term const k * (- 1) ^ k"

definition w1 :: "real \<Rightarrow> real" where
  "w1 const =
     (let term_1 = (nsum (common_term const) / 2)\<^sup>2;
          term_2 = (nsum (alternating_term const) / 2)\<^sup>2
      in term_1 - term_2)"

text \<open>
  \<^verbatim>\<open>_w2\<close>:
  \<^verbatim>\<open>middle_term = lambda k: (digamma((2 * k - 1) / 2) - digamma(1)) * gamma((2 * k - 1) / 2)
       * ((1.414 * const) ** (2 * k - 1)) / fac((2 * k - 1))\<close>,
  \<^verbatim>\<open>w2 = nsum(middle_term, [1, inf])\<close>.
\<close>

definition middle_term :: "real \<Rightarrow> nat \<Rightarrow> real" where
  "middle_term const k =
     (digamma_half (2 * k - 1) - digamma_half 2) * gamma_half (2 * k - 1)
       * (1414 / 1000 * const) ^ (2 * k - 1) / fact (2 * k - 1)"

definition w2 :: "real \<Rightarrow> real" where
  "w2 const = nsum (middle_term const)"

text \<open>
  \<^verbatim>\<open>trade_length_variance\<close>. The two constants are numpy values (they go through
  \<^verbatim>\<open>np.sqrt\<close>); \<^verbatim>\<open>_w1\<close> and \<^verbatim>\<open>_w2\<close> return Python floats, so the last division
  is Python's.
\<close>

definition trade_length_variance :: "ou_model \<Rightarrow> real \<Rightarrow> real \<Rightarrow> real result" where
  "trade_length_variance p a m =
     bind (np_sqrt (2 * mu p)) (\<lambda>s1.
     bind (np_div ((m - theta p) * s1) (sigma p)) (\<lambda>const_1.
     bind (np_sqrt (2 * mu p)) (\<lambda>s2.
     bind (np_div ((a - theta p) * s2) (sigma p)) (\<lambda>const_2.
     (let term_1 = w1 const_1 - w1 const_2 - w2 const_1 + w2 const_2;
          term_2 = (mu p)\<^sup>2
      in py_div term_1 term_2)))))"

text \<open>\<^verbatim>\<open>(m - a - c) / self.expected_trade_length(a, m)\<close>: the divisor is a numpy value.\<close>

definition expected_return :: "ou_model \<Rightarrow> real \<Rightarrow> real \<Rightarrow> real \<Rightarrow> real result" where
  "expected_return p a m c =
     bind (expected_trade_length p a m) (\<lambda>t. np_div (m - a - c) t)"

text \<open>
  \<^verbatim>\<open>(m - a - c)**2 * self.trade_length_variance(a, m) / (self.expected_trade_length(a, m) ** 3)\<close>
\<close>

definition return_variance :: "ou_model \<Rightarrow> real \<Rightarrow> real \<Rightarrow> real \<Rightarrow> real result" where
  "return_variance p a m c =
     bind (trade_length_variance p a m) (\<lambda>v.
     bind (expected_trade_length p a m) (\<lambda>t.
     np_div ((m - a - c)\<^sup>2 * v) (t ^ 3)))"

text \<open>
  \<^verbatim>\<open>r = rf / self.expected_trade_length(a, m)\<close>,
  \<^verbatim>\<open>return (self.expected_return(a, m, c) - r) / np.sqrt(self.return_variance(a, m ,c))\<close>
\<close>

definition sharpe_ratio :: "ou_model \<Rightarrow> real \<Rightarrow> real \<Rightarrow> real \<Rightarrow> real \<Rightarrow> real result" where
  "sharpe_ratio p a m c rf =
     bind (expected_trade_length p a m) (\<lambda>t.
     bind (np_div rf t) (\<lambda>r.
     bind (expected_return p a m c) (\<lambda>er.
     bind (return_variance p a m c) (\<lambda>rv.
     bind (np_sqrt rv) (\<lambda>sd.
     np_div (er - r) sd)))))"

subsection \<open>The threshold optimizers\<close>

text \<open>
  \<^verbatim>\<open>scipy.optimize.fsolve\<close> and \<^verbatim>\<open>scipy.optimize.minimize\<close> are parameters of the
  embedding. A solver takes the function and the starting point and reports the point it
  stopped at together with whether it met its tolerance within its iteration budget
  (scipy's \<^verbatim>\<open>ier\<close> and \<^verbatim>\<open>success\<close>); an exception of the function it evaluates passes
  through it. The source reads only the point: \<^verbatim>\<open>fsolve(equation, initial_guess)[0]\<close>
  and \<^verbatim>\<open>minimize(..., method="Nelder-Mead").x[0]\<close>.
\<close>

record solver_report =
  point :: real
  converged :: bool

type_synonym solver = "(real \<Rightarrow> real result) \<Rightarrow> real \<Rightarrow> solver_report result"

text \<open>
  Equation (13) of the paper, the lambda of \<^verbatim>\<open>get_threshold_by_maximize_expected_return\<close>:
  \<^verbatim>\<open>np.exp(self.mu * ((a - self.theta) ** 2) / (self.sigma ** 2)) * (2 * (a - self.theta) + c)
       - self.sigma * np.sqrt(np.pi / self.mu) * self._erfi_scaler(a)\<close>.
  The solver passes \<open>a\<close> as a numpy array, so the first division is numpy's;
  \<^verbatim>\<open>np.pi / self.mu\<close> divides two Python floats.
\<close>

definition equation :: "ou_model \<Rightarrow> real \<Rightarrow> real \<Rightarrow> real result" where
  "equation p c a =
     bind (np_div (mu p * (a - theta p)\<^sup>2) ((sigma p)\<^sup>2)) (\<lambda>e.
     bind (py_div pi (mu p)) (\<lambda>q.
     bind (np_sqrt q) (\<lambda>s.
     bind (erfi_scaler p a) (\<lambda>es.
     Return (exp e * (2 * (a - theta p) + c) - sigma p * s * es)))))"

definition get_threshold_by_maximize_expected_return ::
    "solver \<Rightarrow> ou_model \<Rightarrow> real \<Rightarrow> (real \<times> real) result" where
  "get_threshold_by_maximize_expected_return fsolve p c =
     (let initial_guess = theta p - c - 1 / 100
      in bind (fsolve (equation p c) initial_guess) (\<lambda>rep.
         (let root = point rep in Return (root, 2 * theta p - root))))"

text \<open>\<^verbatim>\<open>lambda a: -1 * self.sharpe_ratio(a, 2 * self.theta - a, c, rf)\<close>\<close>

definition negative_sharpe_ratio :: "ou_model \<Rightarrow> real \<Rightarrow> real \<Rightarrow> real \<Rightarrow> real result" where
  "negative_sharpe_ratio p c rf a =
     bind (sharpe_ratio p a (2 * theta p - a) c rf) (\<lambda>s. Return (- 1 * s))"

definition get_threshold_by_maximize_sharpe_ratio ::
    "solver \<Rightarrow> ou_model \<Rightarrow> real \<Rightarrow> real \<Rightarrow> (real \<times> real) result" where
  "get_threshold_by_maximize_sharpe_ratio minimize p c rf =
     (let initial_guess = theta p - rf - c
      in bind (minimize (negative_sharpe_ratio p c rf) initial_guess) (\<lambda>rep.
         (let sol = point rep in Return (sol, 2 * theta p - sol))))"

text \<open>
  A solver that stops at its starting point and reports that it did not converge: the
  behaviour of a solver whose iteration budget is used up before any progress.
\<close>

definition gives_up :: solver where
  "gives_up f x0 = Return \<lparr>point = x0, converged = False\<rparr>"


subsection \<open>The formulas as the specification words them\<close>

text \<open>
  The specification's \<open>scaled_erfi(x) = erfi((x - theta) * sqrt(mu) / sigma)\<close> and its
  normalized threshold \<open>(x - theta) * sqrt(2 * mu) / sigma\<close>, as functions on the reals.
\<close>

definition scaled_erfi :: "ou_model \<Rightarrow> real \<Rightarrow> real" where
  "scaled_erfi p x = erfi ((x - theta p) * sqrt (mu p) / sigma p)"

definition normalized :: "ou_model \<Rightarrow> real \<Rightarrow> real" where
  "normalized p x = (x - theta p) * sqrt (2 * mu p) / sigma p"

section \<open>Properties\<close>

subsection \<open>The imaginary error function\<close>

text \<open>
  The series of \<open>erfi\<close> converges for every argument; \<open>erfi\<close> is odd and strictly
  increasing.
\<close>

lemma erfi_term_abs_le: "\<bar>erfi_term x n\<bar> \<le> \<bar>x\<bar> * ((x\<^sup>2) ^ n / fact n)"
proof -
  have "\<bar>erfi_term x n\<bar> = \<bar>x\<bar> * ((x\<^sup>2) ^ n / fact n) / real (2 * n + 1)"
    by (simp add: erfi_term_def power_mult abs_mult power_abs)
  also have "\<dots> \<le> \<bar>x\<bar> * ((x\<^sup>2) ^ n / fact n) / 1"
    by (intro divide_left_mono) (auto intro!: mult_nonneg_nonneg divide_nonneg_nonneg)
  finally show ?thesis by simp
qed

lemma summable_erfi_term: "summable (erfi_term x)"
proof (rule summable_comparison_test')
  have "summable (\<lambda>n. (x\<^sup>2) ^ n /\<^sub>R fact n)" by (rule summable_exp_generic)
  then have "summable (\<lambda>n. (x\<^sup>2) ^ n / fact n)"
    by (simp add: divide_inverse mult.commute scaleR_conv_of_real)
  then show "summable (\<lambda>n. \<bar>x\<bar> * ((x\<^sup>2) ^ n / fact n))" by (rule summable_mult)
  show "\<And>n. n \<ge> 0 \<Longrightarrow> norm (erfi_term x n) \<le> \<bar>x\<bar> * ((x\<^sup>2) ^ n / fact n)"
    using erfi_term_abs_le by simp
qed

lemma erfi_term_minus: "erfi_term (- x) n = - erfi_term x n"
  by (simp add: erfi_term_def)

lemma erfi_minus: "erfi (- x) = - erfi x"
  by (simp add: erfi_def erfi_term_minus suminf_minus summable_erfi_term)


lemma odd_power_strict_mono:
  fixes x y :: real
  assumes "x < y"
  shows "x ^ Suc (2 * n) < y ^ Suc (2 * n)"
proof -
  consider "0 \<le> x" | "y \<le> 0" | "x < 0" "0 < y" by linarith
  then show ?thesis
  proof cases
    case 1
    then show ?thesis using assms by (intro power_strict_mono) auto
  next
    case 2
    then have "(- y) ^ Suc (2 * n) < (- x) ^ Suc (2 * n)"
      using assms by (intro power_strict_mono) auto
    then show ?thesis by simp
  next
    case 3
    have "x ^ Suc (2 * n) < 0" using 3(1) by (rule odd_power_less_zero)
    moreover have "0 < y ^ Suc (2 * n)" using 3(2) by simp
    ultimately show ?thesis by linarith
  qed
qed

lemma erfi_term_strict_mono: "x < y \<Longrightarrow> erfi_term x n < erfi_term y n"
  using odd_power_strict_mono [of x y n]
  by (simp add: erfi_term_def divide_strict_right_mono)

lemma erfi_strict_mono:
  assumes "x < y"
  shows "erfi x < erfi y"
proof -
  have "0 < (\<Sum>n. erfi_term y n - erfi_term x n)"
    by (rule suminf_pos) (use assms erfi_term_strict_mono summable_erfi_term in \<open>auto intro: summable_diff\<close>)
  then have "suminf (erfi_term x) < suminf (erfi_term y)"
    by (simp add: suminf_diff [symmetric] summable_erfi_term)
  moreover have "0 < 2 / sqrt pi" by simp
  ultimately show ?thesis
    unfolding erfi_def by (rule mult_strict_left_mono)
qed

lemma erfi_less_iff: "erfi x < erfi y \<longleftrightarrow> x < y"
proof
  assume "erfi x < erfi y"
  show "x < y"
  proof (rule ccontr)
    assume "\<not> x < y"
    then consider "y < x" | "y = x" by linarith
    then show False
      using \<open>erfi x < erfi y\<close> erfi_strict_mono [of y x] by cases auto
  qed
qed (rule erfi_strict_mono)

subsection \<open>Numerical bounds: \<open>pi\<close> by Machin's formula, the series of \<open>erfi\<close> at \<open>1\<close>\<close>

text \<open>
  Partial sums of the alternating series of \<open>arctan\<close> enclose \<open>arctan (1/5)\<close> and
  \<open>arctan (1/239)\<close>, hence \<open>pi\<close>; partial sums and a geometric tail enclose the series
  of \<open>erfi\<close> at \<open>1\<close>.
\<close>

lemma arctan_term_decreasing:
  fixes x :: real
  assumes "0 \<le> x" and "x \<le> 1"
  shows "1 / real (Suc n * 2 + 1) * x ^ (Suc n * 2 + 1) \<le> 1 / real (n * 2 + 1) * x ^ (n * 2 + 1)"
proof (rule mult_mono)
  show "1 / real (Suc n * 2 + 1) \<le> 1 / real (n * 2 + 1)"
    by (simp add: field_simps)
  show "x ^ (Suc n * 2 + 1) \<le> x ^ (n * 2 + 1)"
    using assms by (intro power_decreasing) auto
qed (use assms in auto)

lemma arctan_lower:
  fixes x :: real
  assumes "0 \<le> x" and "x \<le> 1"
  shows "(\<Sum>i<2 * n. (- 1) ^ i * (1 / real (i * 2 + 1) * x ^ (i * 2 + 1))) \<le> arctan x"
proof -
  have "\<bar>x\<bar> \<le> 1" using assms by simp
  then have z: "(\<lambda>n. 1 / real (n * 2 + 1) * x ^ (n * 2 + 1)) \<longlonglongrightarrow> 0"
    by (rule zeroseq_arctan_series)
  have "(\<Sum>i<2 * n. (- 1) ^ i * (1 / real (i * 2 + 1) * x ^ (i * 2 + 1)))
      \<le> (\<Sum>i. (- 1) ^ i * (1 / real (i * 2 + 1) * x ^ (i * 2 + 1)))"
    by (rule summable_Leibniz'(2) [OF z]) (use assms arctan_term_decreasing in auto)
  then show ?thesis using arctan_series [OF \<open>\<bar>x\<bar> \<le> 1\<close>] by simp
qed

lemma arctan_upper:
  fixes x :: real
  assumes "0 \<le> x" and "x \<le> 1"
  shows "arctan x \<le> (\<Sum>i<2 * n + 1. (- 1) ^ i * (1 / real (i * 2 + 1) * x ^ (i * 2 + 1)))"
proof -
  have "\<bar>x\<bar> \<le> 1" using assms by simp
  then have z: "(\<lambda>n. 1 / real (n * 2 + 1) * x ^ (n * 2 + 1)) \<longlonglongrightarrow> 0"
    by (rule zeroseq_arctan_series)
  have "(\<Sum>i. (- 1) ^ i * (1 / real (i * 2 + 1) * x ^ (i * 2 + 1)))
      \<le> (\<Sum>i<2 * n + 1. (- 1) ^ i * (1 / real (i * 2 + 1) * x ^ (i * 2 + 1)))"
    by (rule summable_Leibniz'(4) [OF z]) (use assms arctan_term_decreasing in auto)
  then show ?thesis using arctan_series [OF \<open>\<bar>x\<bar> \<le> 1\<close>] by simp
qed

lemma arctan_fifth_bounds: "197395 / 1000000 < arctan (1 / 5)" "arctan (1 / 5) < 197396 / 1000000"
proof -
  have "197395 / 1000000 < (\<Sum>i<2 * 2. (- 1) ^ i * (1 / real (i * 2 + 1) * (1 / 5 :: real) ^ (i * 2 + 1)))"
    by (simp add: lessThan_nat_numeral lessThan_Suc power_divide)
  also have "\<dots> \<le> arctan (1 / 5)" by (rule arctan_lower) auto
  finally show "197395 / 1000000 < arctan (1 / 5)" .
  have "arctan (1 / 5) \<le> (\<Sum>i<2 * 2 + 1. (- 1) ^ i * (1 / real (i * 2 + 1) * (1 / 5 :: real) ^ (i * 2 + 1)))"
    by (rule arctan_upper) auto
  also have "\<dots> < 197396 / 1000000"
    by (simp add: lessThan_nat_numeral lessThan_Suc power_divide)
  finally show "arctan (1 / 5) < 197396 / 1000000" .
qed


lemma arctan_239_bounds: "4184 / 1000000 < arctan (1 / 239)" "arctan (1 / 239) < 4185 / 1000000"
proof -
  have "4184 / 1000000 < (\<Sum>i<2 * 1. (- 1) ^ i * (1 / real (i * 2 + 1) * (1 / 239 :: real) ^ (i * 2 + 1)))"
    by (simp add: lessThan_nat_numeral lessThan_Suc power_divide)
  also have "\<dots> \<le> arctan (1 / 239)" by (rule arctan_lower) auto
  finally show "4184 / 1000000 < arctan (1 / 239)" .
  have "arctan (1 / 239) \<le> (\<Sum>i<2 * 0 + 1. (- 1) ^ i * (1 / real (i * 2 + 1) * (1 / 239 :: real) ^ (i * 2 + 1)))"
    by (rule arctan_upper) auto
  also have "\<dots> < 4185 / 1000000"
    by (simp add: lessThan_nat_numeral lessThan_Suc power_divide)
  finally show "arctan (1 / 239) < 4185 / 1000000" .
qed

lemma pi_bounds: "314158 / 100000 < pi" "pi < 314160 / 100000"
proof -
  have m: "pi = 16 * arctan (1 / 5) - 4 * arctan (1 / 239)"
    using machin by simp
  show "314158 / 100000 < pi"
    using arctan_fifth_bounds(1) arctan_239_bounds(2) unfolding m by linarith
  show "pi < 314160 / 100000"
    using arctan_fifth_bounds(2) arctan_239_bounds(1) unfolding m by linarith
qed


lemma erfi_term_one_halves: "erfi_term 1 (Suc k) \<le> erfi_term 1 k / 2"
proof -
  have le: "2 * (real k * 2 + 1) \<le> (real k + 1) * (real k * 2 + 3)"
    by (simp add: algebra_simps)
  have "erfi_term 1 (Suc k) = 1 / (fact k * ((real k + 1) * (real k * 2 + 3)))"
    by (simp add: erfi_term_def algebra_simps)
  also have "\<dots> \<le> 1 / (fact k * (2 * (real k * 2 + 1)))"
    using le by (intro divide_left_mono mult_left_mono mult_pos_pos) (auto intro: add_pos_nonneg)
  also have "\<dots> = erfi_term 1 k / 2"
    by (simp add: erfi_term_def algebra_simps)
  finally show ?thesis .
qed

lemma erfi_term_one_geometric: "erfi_term 1 (n + N) \<le> erfi_term 1 N * (1 / 2) ^ n"
proof (induction n)
  case 0
  show ?case by simp
next
  case (Suc n)
  have "erfi_term 1 (Suc n + N) \<le> erfi_term 1 (n + N) / 2"
    using erfi_term_one_halves [of "n + N"] by simp
  also have "\<dots> \<le> erfi_term 1 N * (1 / 2) ^ n / 2"
    using Suc.IH by simp
  finally show ?case by simp
qed

lemma erfi_series_one_tail: "(\<Sum>n. erfi_term 1 (n + N)) \<le> 2 * erfi_term 1 N"
proof -
  have g: "summable (\<lambda>n. erfi_term 1 N * (1 / 2) ^ n)"
    by (intro summable_mult summable_geometric) simp
  have "(\<Sum>n. erfi_term 1 (n + N)) \<le> (\<Sum>n. erfi_term 1 N * (1 / 2) ^ n)"
    by (rule suminf_le [OF erfi_term_one_geometric _ g])
       (simp add: summable_iff_shift summable_erfi_term)
  also have "\<dots> = erfi_term 1 N * (\<Sum>n. (1 / 2) ^ n)"
    by (intro suminf_mult summable_geometric) simp
  also have "(\<Sum>n. (1 / 2 :: real) ^ n) = 2"
    using suminf_geometric [of "1 / 2 :: real"] by simp
  finally show ?thesis by simp
qed

lemma erfi_series_one_bounds:
  "146265 / 100000 < (\<Sum>n. erfi_term 1 n)" "(\<Sum>n. erfi_term 1 n) < 1462654 / 1000000"
proof -
  have split: "(\<Sum>n. erfi_term 1 n) = (\<Sum>n. erfi_term 1 (n + 8)) + (\<Sum>i<8. erfi_term 1 i)"
    by (rule suminf_split_initial_segment) (rule summable_erfi_term)
  have part: "(\<Sum>i<8. erfi_term 1 i) = 2635403 / 1801800"
    by (simp add: lessThan_nat_numeral lessThan_Suc erfi_term_def fact_numeral)
  have "summable (\<lambda>n. erfi_term 1 (n + 8))"
    by (simp add: summable_iff_shift summable_erfi_term)
  moreover have "0 \<le> erfi_term 1 (n + 8)" for n
    by (simp add: erfi_term_def)
  ultimately have "0 \<le> (\<Sum>n. erfi_term 1 (n + 8))"
    by (rule suminf_nonneg)
  then show "146265 / 100000 < (\<Sum>n. erfi_term 1 n)"
    unfolding split part by simp
  have "(\<Sum>n. erfi_term 1 (n + 8)) \<le> 2 * erfi_term 1 8"
    by (rule erfi_series_one_tail)
  also have "\<dots> = 1 / 342720" by (simp add: erfi_term_def fact_numeral)
  finally show "(\<Sum>n. erfi_term 1 n) < 1462654 / 1000000"
    unfolding split part by simp
qed


lemma sqrt_pi_bounds: "177244 / 100000 < sqrt pi" "sqrt pi < 177246 / 100000"
proof -
  have "(177244 / 100000 :: real)\<^sup>2 < 314158 / 100000" by (simp add: power2_eq_square)
  also have "\<dots> < pi" by (rule pi_bounds)
  finally show "177244 / 100000 < sqrt pi" by (rule real_less_rsqrt)
  have "pi < 314160 / 100000" by (rule pi_bounds)
  also have "\<dots> < (177246 / 100000 :: real)\<^sup>2" by (simp add: power2_eq_square)
  finally show "sqrt pi < 177246 / 100000" by (intro real_less_lsqrt) simp_all
qed

lemma two_pi_erfi_one: "2 * pi * erfi 1 = 4 * (sqrt pi * (\<Sum>n. erfi_term 1 n))"
proof -
  have "pi = sqrt pi * sqrt pi" by simp
  then have "pi / sqrt pi = sqrt pi"
    by (metis pi_gt_zero real_div_sqrt less_imp_le)
  then have "2 * pi * (2 / sqrt pi * s) = 4 * (sqrt pi * s)" for s :: real
    by (simp add: field_simps)
  then show ?thesis by (simp only: erfi_def)
qed

lemma two_pi_erfi_one_bounds: "10369 / 1000 < 2 * pi * erfi 1" "2 * pi * erfi 1 < 10370 / 1000"
proof -
  let ?S = "\<Sum>n. erfi_term 1 n"
  have "(177244 / 100000) * (146265 / 100000) < sqrt pi * ?S"
    using sqrt_pi_bounds(1) erfi_series_one_bounds(1) by (intro mult_strict_mono) simp_all
  then show "10369 / 1000 < 2 * pi * erfi 1"
    unfolding two_pi_erfi_one by simp
  have "sqrt pi * ?S < (177246 / 100000) * (1462654 / 1000000)"
    using sqrt_pi_bounds erfi_series_one_bounds by (intro mult_strict_mono) simp_all
  then show "2 * pi * erfi 1 < 10370 / 1000"
    unfolding two_pi_erfi_one by simp
qed

subsection \<open>Outcomes of the formulas\<close>

text \<open>
  The only exception any of the formulas raises is \<open>ZeroDivisionError\<close>, and the expected
  trade length leaves the numbers exactly when \<open>mu \<le> 0\<close> or \<open>sigma = 0\<close>.
\<close>

lemma bind_Return [simp]: "bind (Return v) f = f v"
  by (simp add: bind_def)

lemma bind_Raise [simp]: "bind (Raise e) f = Raise e"
  by (simp add: bind_def)

lemma bind_NonFinite [simp]: "bind NonFinite f = NonFinite"
  by (simp add: bind_def)














lemma trade_length_variance_Return:
  assumes "0 < mu p" and "sigma p \<noteq> 0"
  shows "trade_length_variance p a m =
    Return ((w1 (normalized p m) - w1 (normalized p a) - w2 (normalized p m) + w2 (normalized p a))
            / (mu p)\<^sup>2)"
  using assms
  by (simp add: trade_length_variance_def normalized_def np_sqrt_def np_div_def py_div_def Let_def)

subsection \<open>Evaluation on a model with positive speed and non-zero volatility\<close>

lemma erfi_scaler_Return:
  assumes "0 < mu p" and "sigma p \<noteq> 0"
  shows "erfi_scaler p x = Return (erfi ((x - theta p) * sqrt (mu p) / sigma p))"
  using assms by (simp add: erfi_scaler_def bind_def np_sqrt_def np_div_def)

lemma expected_trade_length_Return:
  assumes "0 < mu p" and "sigma p \<noteq> 0"
  shows "expected_trade_length p a m =
    Return (pi / mu p * (erfi ((m - theta p) * sqrt (mu p) / sigma p)
                        - erfi ((a - theta p) * sqrt (mu p) / sigma p)))"
  using assms
  by (simp add: expected_trade_length_def erfi_scaler_Return bind_def py_div_def)

lemma scaled_strict_mono:
  fixes s :: real
  assumes "0 < u" and "0 < s" and "a < m"
  shows "(a - t) * sqrt u / s < (m - t) * sqrt u / s"
proof -
  have "0 < sqrt u" using assms(1) by simp
  then have "(a - t) * sqrt u < (m - t) * sqrt u"
    using assms(3) by simp
  then show ?thesis
    using assms(2) by (simp add: divide_strict_right_mono)
qed

subsection \<open>Expected trade length: sign and symmetry\<close>

lemma expected_trade_length_Return_pos:
  assumes "0 < mu p" and "0 < sigma p" and "a < m"
  shows "\<exists>t. expected_trade_length p a m = Return t \<and> 0 < t"
proof -
  let ?za = "(a - theta p) * sqrt (mu p) / sigma p"
  let ?zm = "(m - theta p) * sqrt (mu p) / sigma p"
  have "?za < ?zm" using assms by (rule scaled_strict_mono)
  then have "erfi ?za < erfi ?zm" by (rule erfi_strict_mono)
  moreover have "0 < pi / mu p" using assms(1) by simp
  ultimately have "0 < pi / mu p * (erfi ?zm - erfi ?za)"
    by (intro mult_pos_pos) simp_all
  moreover have "expected_trade_length p a m = Return (pi / mu p * (erfi ?zm - erfi ?za))"
    using assms(1,2) by (simp add: expected_trade_length_Return)
  ultimately show ?thesis by blast
qed





subsection \<open>Expected trade length and expected return: the formulas\<close>

lemma expected_trade_length_unit:
  "expected_trade_length \<lparr>theta = 0, mu = 1, sigma = 1\<rparr> (- 1) 1 = Return (2 * pi * erfi 1)"
  by (simp add: expected_trade_length_Return erfi_minus)

text \<open>
  Claim C1. On a model with \<open>mu > 0\<close> and \<open>sigma \<noteq> 0\<close>, \<^verbatim>\<open>expected_trade_length(a, m)\<close>
  returns \<open>(pi / mu) * (scaled_erfi(m) - scaled_erfi(a))\<close>. With \<open>mu = 1\<close>, \<open>theta = 0\<close>,
  \<open>sigma = 1\<close>, \<open>a = -1\<close> and \<open>m = 1\<close> it returns \<open>pi * (erfi 1 - erfi (-1)) = 2 * pi * erfi 1\<close>,
  which lies within \<open>0.001\<close> of \<open>10.369\<close>.
\<close>

theorem expected_trade_length_formula:
  "(0 < mu p \<longrightarrow> sigma p \<noteq> 0 \<longrightarrow>
      expected_trade_length p a m = Return (pi / mu p * (scaled_erfi p m - scaled_erfi p a)))
   \<and> (\<exists>t. expected_trade_length \<lparr>theta = 0, mu = 1, sigma = 1\<rparr> (- 1) 1 = Return t
        \<and> t = pi / 1 * (erfi 1 - erfi (- 1)) \<and> t = 2 * pi * erfi 1
        \<and> \<bar>t - 10369 / 1000\<bar> < 1 / 1000)"
proof (intro conjI impI)
  assume "0 < mu p" and "sigma p \<noteq> 0"
  then show "expected_trade_length p a m = Return (pi / mu p * (scaled_erfi p m - scaled_erfi p a))"
    unfolding scaled_erfi_def by (rule expected_trade_length_Return)
next
  have b: "\<bar>2 * pi * erfi 1 - 10369 / 1000\<bar> < 1 / 1000"
    using two_pi_erfi_one_bounds by (simp add: abs_if)
  have "erfi 1 - erfi (- 1) = 2 * erfi 1"
    by (simp add: erfi_minus)
  then have e: "2 * pi * erfi 1 = pi / 1 * (erfi 1 - erfi (- 1))"
    by simp
  from expected_trade_length_unit e b
  show "\<exists>t. expected_trade_length \<lparr>theta = 0, mu = 1, sigma = 1\<rparr> (- 1) 1 = Return t
        \<and> t = pi / 1 * (erfi 1 - erfi (- 1)) \<and> t = 2 * pi * erfi 1
        \<and> \<bar>t - 10369 / 1000\<bar> < 1 / 1000"
    by blast
qed

theorem expected_trade_length_formula_witness:
  "(0::real) < 4 \<and> (2::real) \<noteq> 0 \<and>
   expected_trade_length \<lparr>theta = 1, mu = 4, sigma = 2\<rparr> 0 3 =
     Return (pi / 4 * (scaled_erfi \<lparr>theta = 1, mu = 4, sigma = 2\<rparr> 3
                      - scaled_erfi \<lparr>theta = 1, mu = 4, sigma = 2\<rparr> 0))"
  using expected_trade_length_formula [of "\<lparr>theta = 1, mu = 4, sigma = 2\<rparr>" 0 3]
  by simp

text \<open>
  Claim C4. Whenever \<^verbatim>\<open>expected_trade_length(a, m)\<close> returns a number \<open>t\<close> other than
  zero, \<^verbatim>\<open>expected_return(a, m, c)\<close> returns \<open>(m - a - c) / t\<close>. With \<open>mu = 1\<close>,
  \<open>theta = 0\<close>, \<open>sigma = 1\<close>, \<open>a = -1\<close>, \<open>m = 1\<close> and \<open>c = 0.1\<close> it returns
  \<open>(1 - (-1) - 0.1) / t\<close>, which lies within \<open>0.0001\<close> of \<open>0.1832\<close>.
\<close>

theorem expected_return_formula:
  "(expected_trade_length p a m = Return t \<longrightarrow> t \<noteq> 0 \<longrightarrow>
      expected_return p a m c = Return ((m - a - c) / t))
   \<and> (\<exists>t r. expected_trade_length \<lparr>theta = 0, mu = 1, sigma = 1\<rparr> (- 1) 1 = Return t
        \<and> expected_return \<lparr>theta = 0, mu = 1, sigma = 1\<rparr> (- 1) 1 (1 / 10) = Return r
        \<and> r = (1 - (- 1) - 1 / 10) / t \<and> \<bar>r - 1832 / 10000\<bar> < 1 / 10000)"
proof (intro conjI impI)
  assume "expected_trade_length p a m = Return t" and "t \<noteq> 0"
  then show "expected_return p a m c = Return ((m - a - c) / t)"
    by (simp add: expected_return_def np_div_def)
next
  let ?t = "2 * pi * erfi 1"
  have pos: "0 < ?t" using two_pi_erfi_one_bounds(1) by simp
  have r: "expected_return \<lparr>theta = 0, mu = 1, sigma = 1\<rparr> (- 1) 1 (1 / 10)
             = Return ((1 - (- 1) - 1 / 10) / ?t)"
  proof -
    have "?t \<noteq> 0" using pos by linarith
    then show ?thesis
      unfolding expected_return_def expected_trade_length_unit bind_Return np_div_def
      by (simp only: if_False)
  qed
  have "18310 / 100000 * ?t < 19 / 10" "19 / 10 < 18330 / 100000 * ?t"
    using two_pi_erfi_one_bounds by simp_all
  then have "18310 / 100000 < (19 / 10) / ?t" "(19 / 10) / ?t < 18330 / 100000"
    using pos by (simp_all add: pos_less_divide_eq pos_divide_less_eq)
  then have "\<bar>(1 - (- 1) - 1 / 10) / ?t - 1832 / 10000\<bar> < 1 / 10000"
    by (simp add: abs_if)
  with r expected_trade_length_unit
  show "\<exists>t r. expected_trade_length \<lparr>theta = 0, mu = 1, sigma = 1\<rparr> (- 1) 1 = Return t
        \<and> expected_return \<lparr>theta = 0, mu = 1, sigma = 1\<rparr> (- 1) 1 (1 / 10) = Return r
        \<and> r = (1 - (- 1) - 1 / 10) / t \<and> \<bar>r - 1832 / 10000\<bar> < 1 / 10000"
    by blast
qed

theorem expected_return_formula_witness:
  "\<exists>t. expected_trade_length \<lparr>theta = 0, mu = 1, sigma = 1\<rparr> 0 1 = Return t \<and> t \<noteq> 0
     \<and> expected_return \<lparr>theta = 0, mu = 1, sigma = 1\<rparr> 0 1 (1 / 4) = Return ((1 - 0 - 1 / 4) / t)"
proof -
  obtain t where t: "expected_trade_length \<lparr>theta = 0, mu = 1, sigma = 1\<rparr> 0 1 = Return t" "0 < t"
    using expected_trade_length_Return_pos [of "\<lparr>theta = 0, mu = 1, sigma = 1\<rparr>" 0 1] by auto
  then show ?thesis
    using expected_return_formula [of "\<lparr>theta = 0, mu = 1, sigma = 1\<rparr>" 0 1 t "1 / 4"]
    by auto
qed

subsection \<open>The threshold optimizers\<close>








text \<open>
  Claim C8, refuted as stated. With a solver that uses up its budget without converging,
  both optimizers return a pair; neither raises \<open>ConvergenceError\<close>.
\<close>

theorem no_ConvergenceError_counterexample:
  "get_threshold_by_maximize_expected_return gives_up \<lparr>theta = 0, mu = 1, sigma = 1\<rparr> (1 / 10)
     = Return (- 11 / 100, 11 / 100)
   \<and> get_threshold_by_maximize_expected_return gives_up \<lparr>theta = 0, mu = 1, sigma = 1\<rparr> (1 / 10)
     \<noteq> Raise ConvergenceError
   \<and> get_threshold_by_maximize_sharpe_ratio gives_up \<lparr>theta = 0, mu = 1, sigma = 1\<rparr> (1 / 10) 0
     = Return (- 1 / 10, 1 / 10)
   \<and> get_threshold_by_maximize_sharpe_ratio gives_up \<lparr>theta = 0, mu = 1, sigma = 1\<rparr> (1 / 10) 0
     \<noteq> Raise ConvergenceError"
  by (simp add: get_threshold_by_maximize_expected_return_def
      get_threshold_by_maximize_sharpe_ratio_def gives_up_def Let_def)

text \<open>
  Claim C8, amended. When the underlying solver stops without having converged and
  reports the point \<open>x\<close> it stopped at, each optimizer returns the pair
  \<open>(x, 2 theta - x)\<close>: the convergence status is not read and nothing is raised.
\<close>

theorem optimizers_ignore_convergence:
  "(fsolve (equation p c) (theta p - c - 1 / 100) = Return rep \<longrightarrow> \<not> converged rep \<longrightarrow>
      get_threshold_by_maximize_expected_return fsolve p c
        = Return (point rep, 2 * theta p - point rep))
   \<and> (minimize (negative_sharpe_ratio p c rf) (theta p - rf - c) = Return rep' \<longrightarrow>
        \<not> converged rep' \<longrightarrow>
      get_threshold_by_maximize_sharpe_ratio minimize p c rf
        = Return (point rep', 2 * theta p - point rep'))"
  by (simp add: get_threshold_by_maximize_expected_return_def
      get_threshold_by_maximize_sharpe_ratio_def Let_def)

theorem optimizers_ignore_convergence_witness:
  "gives_up (equation \<lparr>theta = 0, mu = 1, sigma = 1\<rparr> (1 / 10)) (0 - 1 / 10 - 1 / 100)
     = Return \<lparr>point = - 11 / 100, converged = False\<rparr>
   \<and> \<not> converged \<lparr>point = - 11 / 100, converged = False\<rparr>
   \<and> get_threshold_by_maximize_expected_return gives_up \<lparr>theta = 0, mu = 1, sigma = 1\<rparr> (1 / 10)
     = Return (- 11 / 100, 2 * 0 - (- 11 / 100))
   \<and> gives_up (negative_sharpe_ratio \<lparr>theta = 0, mu = 1, sigma = 1\<rparr> (1 / 10) 0) (0 - 0 - 1 / 10)
     = Return \<lparr>point = - 1 / 10, converged = False\<rparr>
   \<and> get_threshold_by_maximize_sharpe_ratio gives_up \<lparr>theta = 0, mu = 1, sigma = 1\<rparr> (1 / 10) 0
     = Return (- 1 / 10, 2 * 0 - (- 1 / 10))"
  using optimizers_ignore_convergence
      [of gives_up "\<lparr>theta = 0, mu = 1, sigma = 1\<rparr>" "1 / 10"
          "\<lparr>point = - 11 / 100, converged = False\<rparr>"
          gives_up 0 "\<lparr>point = - 1 / 10, converged = False\<rparr>"]
  by (simp add: gives_up_def)

subsection \<open>Invalid parameter combinations\<close>









subsection \<open>The series of \<open>W1\<close>\<close>

lemma ln_two_bounds: "1 / 2 \<le> ln (2::real)" "ln (2::real) \<le> 1"
proof -
  have "ln (1 - 1 / 2) \<le> - (1 / 2 :: real)"
    by (rule ln_one_minus_pos_upper_bound) simp_all
  moreover have "ln (1 - 1 / 2 :: real) = - ln 2"
    by (simp add: ln_div)
  ultimately show "1 / 2 \<le> ln (2::real)" by simp
  show "ln (2::real) \<le> 1"
    using ln_add_one_self_le_self [of "1::real"] by simp
qed

lemma sqrt_pi_le_two: "sqrt pi \<le> 2"
  using sqrt_pi_bounds(2) by linarith

lemma sqrt_pi_ge_one: "1 \<le> sqrt pi"
  using sqrt_pi_bounds(1) by linarith

lemma gamma_half_pos: "0 < n \<Longrightarrow> 0 < gamma_half n"
  by (induction n rule: gamma_half.induct) simp_all

lemma gamma_half_nonneg: "0 \<le> gamma_half n"
  by (cases "n = 0") (simp_all add: gamma_half_pos less_imp_le)

lemma gamma_half_ratio: "gamma_half n / fact n \<le> 4 * (1 / 2) ^ n"
proof (induction n rule: gamma_half.induct)
  case 1
  show ?case by simp
next
  case 2
  show ?case using sqrt_pi_le_two by simp
next
  case 3
  show ?case by (simp add: power2_eq_square)
next
  case (4 k)
  let ?n = "Suc k"
  have "2 * real ?n \<le> (real ?n + 2) * (real ?n + 1)"
    by (simp add: algebra_simps)
  then have q: "real ?n / 2 / ((real ?n + 2) * (real ?n + 1)) \<le> 1 / 4"
    by (simp add: divide_le_eq pos_divide_le_eq add_pos_nonneg)
  have "gamma_half (Suc (Suc ?n)) / fact (Suc (Suc ?n))
      = (real ?n / 2 / ((real ?n + 2) * (real ?n + 1))) * (gamma_half ?n / fact ?n)"
    by (simp add: field_simps)
  also have "\<dots> \<le> 1 / 4 * (gamma_half ?n / fact ?n)"
    using q by (intro mult_right_mono divide_nonneg_nonneg gamma_half_nonneg) simp_all
  also have "\<dots> \<le> 1 / 4 * (4 * (1 / 2) ^ ?n)"
    using "4.IH" by (intro mult_left_mono) simp_all
  also have "\<dots> = 4 * (1 / 2) ^ Suc (Suc ?n)"
    by simp
  finally show ?case .
qed

lemma alternating_term_abs: "\<bar>alternating_term x k\<bar> = \<bar>common_term x k\<bar>"
  by (simp add: alternating_term_def abs_mult power_abs)

text \<open>
  The two series of \<open>W1\<close> converge for every argument: their terms are dominated by
  \<open>4 (y / 2)^k / (k div 2)!\<close> with \<open>y = |1.414 x|\<close>, the interleaving of two exponential
  series.
\<close>

lemma gamma_half_ratio_fact: "gamma_half n / fact n \<le> 4 * (1 / 2) ^ n / fact (n div 2)"
proof (induction n rule: gamma_half.induct)
  case 1
  show ?case by simp
next
  case 2
  show ?case using sqrt_pi_le_two by simp
next
  case 3
  show ?case by (simp add: power2_eq_square)
next
  case (4 k)
  let ?n = "Suc k"
  let ?h = "real (?n div 2)"
  define N where "N = real ?n"
  define h where "h = ?h"
  have N: "0 < N" by (simp add: N_def)
  have h: "0 \<le> h" by (simp add: h_def)
  have "2 * (?n div 2) \<le> ?n" by simp
  then have "real (2 * (?n div 2)) \<le> real ?n" by (rule of_nat_mono)
  then have "2 * h \<le> N" by (simp add: N_def h_def)
  then have "N * (2 * h) \<le> N * N"
    using N by (intro mult_left_mono) simp_all
  moreover have "N / 2 * (4 * (h + 1)) = N * (2 * h) + 2 * N"
    by (simp add: algebra_simps)
  moreover have "(N + 2) * (N + 1) = N * N + 3 * N + 2"
    by (simp add: algebra_simps)
  ultimately have "N / 2 * (4 * (h + 1)) \<le> (N + 2) * (N + 1)"
    using N by linarith
  moreover have "0 < (N + 2) * (N + 1)" "0 < 4 * (h + 1)"
    using N h by (simp_all add: mult_pos_pos add_pos_nonneg)
  ultimately have "N / 2 / ((N + 2) * (N + 1)) \<le> 1 / (4 * (h + 1))"
    by (simp add: field_simps)
  then have q: "real ?n / 2 / ((real ?n + 2) * (real ?n + 1)) \<le> 1 / (4 * (?h + 1))"
    by (simp only: N_def h_def)
  have "gamma_half (Suc (Suc ?n)) / fact (Suc (Suc ?n))
      = (real ?n / 2 / ((real ?n + 2) * (real ?n + 1))) * (gamma_half ?n / fact ?n)"
    by (simp add: field_simps)
  also have "\<dots> \<le> 1 / (4 * (?h + 1)) * (gamma_half ?n / fact ?n)"
    using q by (intro mult_right_mono divide_nonneg_nonneg gamma_half_nonneg) simp_all
  also have "\<dots> \<le> 1 / (4 * (?h + 1)) * (4 * (1 / 2) ^ ?n / fact (?n div 2))"
    using "4.IH" by (intro mult_left_mono) simp_all
  also have "\<dots> = 4 * (1 / 2) ^ Suc (Suc ?n) / fact (Suc (Suc ?n) div 2)"
  proof -
    define F :: real where "F = fact (?n div 2)"
    define p :: real where "p = (1 / 2) ^ ?n"
    have "0 < F" by (simp add: F_def)
    have "Suc (Suc ?n) div 2 = Suc (?n div 2)" by simp
    then have "(fact (Suc (Suc ?n) div 2) :: real) = (?h + 1) * F"
      by (simp add: F_def algebra_simps)
    moreover have "(1 / 2 :: real) ^ Suc (Suc ?n) = p / 4" by (simp add: p_def)
    moreover have "1 / (4 * (?h + 1)) * (4 * p / F) = 4 * (p / 4) / ((?h + 1) * F)"
    proof -
      have "1 / (4 * (?h + 1)) * (4 * p / F) = (4 * p) / (4 * ((?h + 1) * F))"
        by (simp only: times_divide_times_eq mult_1 mult.assoc)
      also have "\<dots> = p / ((?h + 1) * F)"
        by (rule mult_divide_mult_cancel_left) simp
      finally show ?thesis by simp
    qed
    ultimately show ?thesis by (simp only: F_def p_def)
  qed
  finally show ?case .
qed


lemma power_over_half_fact_cases:
  fixes z :: real
  shows "(if even n then (z\<^sup>2) ^ (n div 2) / fact (n div 2)
          else z * ((z\<^sup>2) ^ ((n - 1) div 2) / fact ((n - 1) div 2)))
         = z ^ n / fact (n div 2)"
proof (cases "even n")
  case True
  then obtain j where "n = 2 * j" by (elim evenE)
  then show ?thesis by (simp add: power_mult)
next
  case False
  then obtain j where "n = 2 * j + 1" by (elim oddE)
  then show ?thesis by (simp add: power_mult)
qed

lemma summable_power_over_half_fact:
  fixes z :: real
  shows "summable (\<lambda>n. z ^ n / fact (n div 2))"
proof -
  have "(\<lambda>j. (z\<^sup>2) ^ j /\<^sub>R fact j) sums exp (z\<^sup>2)" by (rule exp_converges)
  then have e: "(\<lambda>j. (z\<^sup>2) ^ j / fact j) sums exp (z\<^sup>2)"
    by (simp add: divide_inverse mult.commute scaleR_conv_of_real)
  have o: "(\<lambda>j. z * ((z\<^sup>2) ^ j / fact j)) sums (z * exp (z\<^sup>2))"
    by (rule sums_mult [OF e])
  have "(\<lambda>n. if even n then (z\<^sup>2) ^ (n div 2) / fact (n div 2)
          else z * ((z\<^sup>2) ^ ((n - 1) div 2) / fact ((n - 1) div 2)))
        sums (z * exp (z\<^sup>2) + exp (z\<^sup>2))"
    by (rule sums_if [OF o e])
  then have "(\<lambda>n. z ^ n / fact (n div 2)) sums (z * exp (z\<^sup>2) + exp (z\<^sup>2))"
    by (simp only: power_over_half_fact_cases)
  then show ?thesis by (rule sums_summable)
qed

lemma common_term_abs_fact:
  "\<bar>common_term x k\<bar> \<le> 4 * ((\<bar>1414 / 1000 * x\<bar> / 2) ^ k / fact (k div 2))"
proof -
  define y where "y = \<bar>1414 / 1000 * x\<bar>"
  have "\<bar>common_term x k\<bar> = gamma_half k / fact k * y ^ k"
    using gamma_half_nonneg [of k]
    by (simp add: common_term_def abs_mult power_abs y_def del: gamma_half.simps)
  also have "\<dots> \<le> 4 * (1 / 2) ^ k / fact (k div 2) * y ^ k"
    by (intro mult_right_mono gamma_half_ratio_fact) (simp add: y_def)
  also have "\<dots> = 4 * ((y / 2) ^ k / fact (k div 2))"
  proof -
    have "(1 / 2) ^ k * y ^ k = (1 / 2 * y) ^ k"
      by (rule power_mult_distrib [symmetric])
    then have "(1 / 2) ^ k * y ^ k = (y / 2) ^ k" by simp
    then show ?thesis by (simp add: field_simps)
  qed
  finally show ?thesis by (simp only: y_def)
qed

lemma summable_common_term: "summable (common_term x)" "summable (alternating_term x)"
proof -
  have b: "summable (\<lambda>k. 4 * ((\<bar>1414 / 1000 * x\<bar> / 2) ^ k / fact (k div 2)))"
    by (intro summable_mult summable_power_over_half_fact)
  show "summable (common_term x)"
  proof (rule summable_comparison_test' [OF b])
    show "norm (common_term x k) \<le> 4 * ((\<bar>1414 / 1000 * x\<bar> / 2) ^ k / fact (k div 2))" for k
      unfolding real_norm_def by (rule common_term_abs_fact)
  qed
  show "summable (alternating_term x)"
  proof (rule summable_comparison_test' [OF b])
    show "norm (alternating_term x k) \<le> 4 * ((\<bar>1414 / 1000 * x\<bar> / 2) ^ k / fact (k div 2))" for k
      unfolding real_norm_def alternating_term_abs by (rule common_term_abs_fact)
  qed
qed

lemma w1_factor:
  "w1 x = (\<Sum>n. common_term x (Suc n) - alternating_term x (Suc n))
          * (\<Sum>n. common_term x (Suc n) + alternating_term x (Suc n)) / 4"
proof -
  have c: "summable (\<lambda>n. common_term x (Suc n))" and a: "summable (\<lambda>n. alternating_term x (Suc n))"
    using summable_common_term [of x] by (simp_all add: summable_Suc_iff)
  have "(\<Sum>n. common_term x (Suc n) - alternating_term x (Suc n))
          = nsum (common_term x) - nsum (alternating_term x)"
    unfolding nsum_def by (rule suminf_diff [OF c a, symmetric])
  moreover have "(\<Sum>n. common_term x (Suc n) + alternating_term x (Suc n))
          = nsum (common_term x) + nsum (alternating_term x)"
    unfolding nsum_def by (rule suminf_add [OF c a, symmetric])
  moreover have "(s / 2)\<^sup>2 - (t / 2)\<^sup>2 = (s - t) * (s + t) / 4" for s t :: real
    by (simp add: power2_eq_square algebra_simps)
  ultimately show ?thesis
    by (simp only: w1_def Let_def)
qed

lemma common_minus_alternating:
  "common_term x k - alternating_term x k = (if odd k then 2 * common_term x k else 0)"
  by (simp add: alternating_term_def)

lemma common_plus_alternating:
  "common_term x k + alternating_term x k = (if even k then 2 * common_term x k else 0)"
  by (simp add: alternating_term_def)

lemma common_term_even_nonneg: "even k \<Longrightarrow> 0 \<le> common_term x k"
  unfolding common_term_def
  by (intro divide_nonneg_nonneg mult_nonneg_nonneg gamma_half_nonneg zero_le_even_power) simp_all

lemma common_term_pos: "0 < x \<Longrightarrow> 0 < k \<Longrightarrow> 0 < common_term x k"
  unfolding common_term_def
  by (intro divide_pos_pos mult_pos_pos gamma_half_pos zero_less_power) simp_all

lemma common_term_odd_neg:
  assumes "odd k" and "x < 0"
  shows "common_term x k < 0"
proof -
  have "0 < k" using assms(1) by (rule odd_pos)
  then have "0 < gamma_half k / fact k"
    by (intro divide_pos_pos gamma_half_pos) simp_all
  moreover have "(1414 / 1000 * x) ^ k < 0"
    using assms by (simp add: power_less_zero_eq)
  ultimately have "gamma_half k / fact k * (1414 / 1000 * x) ^ k < 0"
    by (rule mult_pos_neg)
  then show ?thesis by (simp add: common_term_def)
qed

lemma common_term_two_pos: "x \<noteq> 0 \<Longrightarrow> 0 < common_term x 2"
  by (auto simp: common_term_def numeral_2_eq_2 zero_less_mult_iff)

lemma w1_second_factor_pos:
  assumes "x \<noteq> 0"
  shows "0 < (\<Sum>n. common_term x (Suc n) + alternating_term x (Suc n))"
proof (rule suminf_pos2)
  show "summable (\<lambda>n. common_term x (Suc n) + alternating_term x (Suc n))"
    using summable_common_term [of x] by (intro summable_add) (simp_all add: summable_Suc_iff)
  show "0 \<le> common_term x (Suc n) + alternating_term x (Suc n)" for n
    unfolding common_plus_alternating using common_term_even_nonneg [of "Suc n" x] by simp
  show "0 < common_term x (Suc 1) + alternating_term x (Suc 1)"
    unfolding common_plus_alternating using common_term_two_pos [OF assms]
    by (simp add: numeral_2_eq_2)
qed

lemma w1_first_factor_pos:
  assumes "0 < x"
  shows "0 < (\<Sum>n. common_term x (Suc n) - alternating_term x (Suc n))"
proof (rule suminf_pos2)
  show "summable (\<lambda>n. common_term x (Suc n) - alternating_term x (Suc n))"
    using summable_common_term [of x] by (intro summable_diff) (simp_all add: summable_Suc_iff)
  show "0 \<le> common_term x (Suc n) - alternating_term x (Suc n)" for n
    unfolding common_minus_alternating
    using common_term_pos [OF assms, of "Suc n"] by simp
  show "0 < common_term x (Suc 0) - alternating_term x (Suc 0)"
    unfolding common_minus_alternating
    using common_term_pos [OF assms, of "Suc 0"] by simp
qed

lemma w1_first_factor_neg:
  assumes "x < 0"
  shows "(\<Sum>n. common_term x (Suc n) - alternating_term x (Suc n)) < 0"
proof -
  have s: "summable (\<lambda>n. common_term x (Suc n) - alternating_term x (Suc n))"
    using summable_common_term [of x] by (intro summable_diff) (simp_all add: summable_Suc_iff)
  have "0 < (\<Sum>n. - (common_term x (Suc n) - alternating_term x (Suc n)))"
  proof (rule suminf_pos2)
    show "summable (\<lambda>n. - (common_term x (Suc n) - alternating_term x (Suc n)))"
      using s by (rule summable_minus)
    show "0 \<le> - (common_term x (Suc n) - alternating_term x (Suc n))" for n
      unfolding common_minus_alternating
      using common_term_odd_neg [OF _ assms, of "Suc n"] by (auto simp: less_imp_le)
    show "0 < - (common_term x (Suc 0) - alternating_term x (Suc 0))"
      unfolding common_minus_alternating
      using common_term_odd_neg [OF _ assms, of "Suc 0"] by simp
  qed
  then show ?thesis
    by (simp only: suminf_minus [OF s] neg_0_less_iff_less)
qed

text \<open>\<open>W1\<close> has the sign of its argument.\<close>

lemma w1_pos:
  assumes "0 < x"
  shows "0 < w1 x"
proof -
  have "x \<noteq> 0" using assms by simp
  then show ?thesis
    using w1_first_factor_pos [OF assms] w1_second_factor_pos [of x]
    by (simp add: w1_factor)
qed

lemma w1_neg:
  assumes "x < 0"
  shows "w1 x < 0"
proof -
  have "x \<noteq> 0" using assms by simp
  then show ?thesis
    using w1_first_factor_neg [OF assms] w1_second_factor_pos [of x]
    by (simp add: w1_factor mult_neg_pos)
qed

text \<open>
  Claim C3, refuted as stated. The claim words \<open>W1(x)\<close> as a squared difference of the two
  halved sums, \<open>(S / 2 - A / 2)\<^sup>2\<close>, a number that is never negative. The value the
  code computes at \<open>x = - 1/4\<close> is negative, so it is not that square.
\<close>

theorem w1_squared_difference_counterexample:
  "w1 (- 1 / 4) < 0
   \<and> w1 (- 1 / 4) \<noteq> (nsum (common_term (- 1 / 4)) / 2 - nsum (alternating_term (- 1 / 4)) / 2)\<^sup>2"
proof -
  have neg: "w1 (- 1 / 4) < 0" by (rule w1_neg) simp
  moreover have "0 \<le> (nsum (common_term (- 1 / 4)) / 2 - nsum (alternating_term (- 1 / 4)) / 2)\<^sup>2"
    by (rule zero_le_power2)
  ultimately show ?thesis by linarith
qed

text \<open>
  Claim C3, amended. \<open>W1(x)\<close> is the difference of two squares: the square of half the sum
  of the terms \<open>Gamma(k/2) (1.414 x)^k / k!\<close> over \<open>k \<ge> 1\<close>, minus the square of half the
  sum of the same terms with the alternating sign \<open>(-1)^k\<close>.
\<close>

theorem w1_difference_of_squares:
  "w1 x = (nsum (common_term x) / 2)\<^sup>2 - (nsum (alternating_term x) / 2)\<^sup>2
   \<and> nsum (common_term x) = (\<Sum>n. common_term x (n + 1))
   \<and> nsum (alternating_term x) = (\<Sum>n. alternating_term x (n + 1))
   \<and> common_term x k = gamma_half k * (1414 / 1000 * x) ^ k / fact k
   \<and> alternating_term x k = (- 1) ^ k * common_term x k"
  by (simp add: w1_def nsum_def Let_def alternating_term_def common_term_def)

subsection \<open>The series of \<open>W2\<close>, the variances and the Sharpe ratio\<close>

lemma digamma_diff_bound: "0 < n \<Longrightarrow> \<bar>digamma_half n - digamma_half 2\<bar> \<le> 2 ^ n"
proof (induction n rule: digamma_half.induct)
  case 1
  then show ?case by simp
next
  case 2
  show ?case using ln_two_bounds by (simp add: numeral_2_eq_2)
next
  case 3
  show ?case by (simp add: numeral_2_eq_2)
next
  case (4 k)
  let ?n = "Suc k"
  define q :: real where "q = 2 / real ?n"
  define d where "d = digamma_half ?n - digamma_half 2"
  define P :: real where "P = 2 ^ ?n"
  have "q \<le> 2 / 1"
    unfolding q_def by (intro divide_left_mono) simp_all
  moreover have "0 \<le> q" unfolding q_def by simp
  moreover have "\<bar>d\<bar> \<le> P" using "4.IH" by (simp add: d_def P_def)
  moreover have "1 \<le> P" unfolding P_def by (rule one_le_power) simp
  ultimately have "\<bar>d + q\<bar> \<le> P + P + P + P"
    by linarith
  moreover have "digamma_half (Suc (Suc ?n)) - digamma_half 2 = d + q"
    by (simp add: d_def q_def)
  ultimately have "\<bar>digamma_half (Suc (Suc ?n)) - digamma_half 2\<bar> \<le> P + P + P + P"
    by simp
  then show ?case by (simp add: P_def)
qed

lemma middle_term_abs: "\<bar>middle_term x (Suc n)\<bar> \<le> 4 * \<bar>1414 / 1000 * x\<bar> ^ (2 * n + 1)"
proof -
  let ?y = "1414 / 1000 * x"
  let ?k = "2 * n + 1"
  have k: "2 * Suc n - 1 = ?k" by simp
  have "\<bar>middle_term x (Suc n)\<bar>
      = \<bar>digamma_half ?k - digamma_half 2\<bar> * (gamma_half ?k / fact ?k) * \<bar>?y\<bar> ^ ?k"
    unfolding middle_term_def k using gamma_half_nonneg [of ?k]
    by (simp add: abs_mult power_abs del: gamma_half.simps digamma_half.simps power_Suc)
  also have "\<dots> \<le> 2 ^ ?k * (4 * (1 / 2) ^ ?k) * \<bar>?y\<bar> ^ ?k"
    by (intro mult_right_mono mult_mono digamma_diff_bound gamma_half_ratio
        divide_nonneg_nonneg gamma_half_nonneg) simp_all
  also have "(2::real) ^ ?k * (4 * (1 / 2) ^ ?k) = 4"
  proof -
    have "(2::real) ^ ?k * (1 / 2) ^ ?k = (2 * (1 / 2)) ^ ?k"
      by (rule power_mult_distrib [symmetric])
    then show ?thesis by simp
  qed
  finally show ?thesis .
qed

text \<open>The series of \<open>W2\<close> converges for every argument.\<close>

lemma middle_term_abs_fact:
  "\<bar>middle_term x (Suc n)\<bar> \<le> 4 * \<bar>1414 / 1000 * x\<bar> * (((1414 / 1000 * x)\<^sup>2) ^ n / fact n)"
proof -
  define y where "y = \<bar>1414 / 1000 * x\<bar>"
  let ?k = "2 * n + 1"
  have k: "2 * Suc n - 1 = ?k" "?k div 2 = n" by simp_all
  have "\<bar>middle_term x (Suc n)\<bar>
      = \<bar>digamma_half ?k - digamma_half 2\<bar> * (gamma_half ?k / fact ?k) * y ^ ?k"
    unfolding middle_term_def k y_def using gamma_half_nonneg [of ?k]
    by (simp add: abs_mult power_abs del: gamma_half.simps digamma_half.simps power_Suc)
  also have "\<dots> \<le> 2 ^ ?k * (4 * (1 / 2) ^ ?k / fact (?k div 2)) * y ^ ?k"
    by (intro mult_right_mono mult_mono digamma_diff_bound gamma_half_ratio_fact
        divide_nonneg_nonneg gamma_half_nonneg) (simp_all add: y_def)
  also have "\<dots> = 4 * (y ^ ?k / fact n)"
  proof -
    have "(2::real) ^ ?k * (1 / 2) ^ ?k = (2 * (1 / 2)) ^ ?k"
      by (rule power_mult_distrib [symmetric])
    then have "(2::real) ^ ?k * (1 / 2) ^ ?k = 1" by simp
    then have "(2::real) ^ ?k * (4 * (1 / 2) ^ ?k / fact n) = 4 / fact n"
      by (simp only: times_divide_eq_right mult.left_commute [of _ 4] mult_1_right)
    then show ?thesis by (simp only: k) simp
  qed
  also have "y ^ ?k = y * (y\<^sup>2) ^ n"
    by (simp add: power_mult)
  also have "y\<^sup>2 = (1414 / 1000 * x)\<^sup>2"
    by (simp only: y_def power2_abs)
  finally show ?thesis by (simp only: y_def mult.assoc times_divide_eq_right)
qed

lemma summable_power_over_fact:
  fixes z :: real
  shows "summable (\<lambda>n. z ^ n / fact n)"
proof -
  have "summable (\<lambda>n. z ^ n /\<^sub>R fact n)" by (rule summable_exp_generic)
  then show ?thesis
    by (simp add: divide_inverse mult.commute scaleR_conv_of_real)
qed

lemma summable_middle_term: "summable (\<lambda>n. middle_term x (Suc n))"
proof (rule summable_comparison_test')
  show "summable (\<lambda>n. 4 * \<bar>1414 / 1000 * x\<bar> * (((1414 / 1000 * x)\<^sup>2) ^ n / fact n))"
    by (rule summable_mult) (rule summable_power_over_fact)
  show "norm (middle_term x (Suc n))
      \<le> 4 * \<bar>1414 / 1000 * x\<bar> * (((1414 / 1000 * x)\<^sup>2) ^ n / fact n)" for n
    unfolding real_norm_def by (rule middle_term_abs_fact)
qed

text \<open>
  For a small positive argument the first term of \<open>W2\<close>, which is negative, outweighs the
  rest of the series. Together with the sign of \<open>W1\<close> this gives thresholds at which the
  trade-length variance is a positive number.
\<close>

lemma middle_term_one: "middle_term x (Suc 0) = - (2 * ln 2 * sqrt pi * (1414 / 1000 * x))"
  by (simp add: middle_term_def numeral_2_eq_2)

lemma w2_neg:
  assumes "0 < x" and "x \<le> 1 / 4"
  shows "w2 x < 0"
proof -
  define y where "y = 1414 / 1000 * x"
  let ?f = "\<lambda>n. middle_term x (Suc n)"
  have y: "0 < y" "y \<le> 3535 / 10000" using assms by (simp_all add: y_def)
  have "y\<^sup>2 \<le> (3535 / 10000)\<^sup>2"
    using y by (intro power_mono) simp_all
  then have y2: "y\<^sup>2 \<le> 1 / 8" by (simp add: power2_eq_square)
  have sf: "summable ?f"
    by (rule summable_middle_term)
  have tail_term: "?f (Suc n) \<le> y / 2 * (1 / 8) ^ n" for n
  proof -
    have "?f (Suc n) \<le> \<bar>?f (Suc n)\<bar>" by simp
    also have "\<dots> \<le> 4 * \<bar>y\<bar> ^ (2 * Suc n + 1)"
      unfolding y_def by (rule middle_term_abs)
    also have "\<dots> = 4 * y * (y\<^sup>2) ^ Suc n"
    proof -
      have "\<bar>y\<bar> = y" using y(1) by simp
      moreover have "y ^ (2 * Suc n + 1) = y * (y\<^sup>2) ^ Suc n"
      proof -
        have "y ^ (2 * Suc n + 1) = y ^ (2 * Suc n) * y" by (simp only: power_add power_one_right)
        also have "y ^ (2 * Suc n) = (y\<^sup>2) ^ Suc n" by (rule power_mult)
        finally show ?thesis by (simp only: mult.commute)
      qed
      ultimately show ?thesis by (simp only: mult.assoc)
    qed
    also have "\<dots> \<le> 4 * y * (1 / 8) ^ Suc n"
      using y(1) y2 by (intro mult_left_mono power_mono) simp_all
    also have "\<dots> = y / 2 * (1 / 8) ^ n" by simp
    finally show ?thesis .
  qed
  have sg: "summable (\<lambda>n. y / 2 * (1 / 8 :: real) ^ n)"
    by (intro summable_mult summable_geometric) simp
  have sf': "summable (\<lambda>n. ?f (Suc n))"
    using sf by (subst summable_Suc_iff)
  have "(\<Sum>n. ?f (Suc n)) \<le> (\<Sum>n. y / 2 * (1 / 8) ^ n)"
    by (rule suminf_le [OF tail_term sf' sg])
  also have "\<dots> = y / 2 * (\<Sum>n. (1 / 8) ^ n)"
    by (intro suminf_mult summable_geometric) simp
  also have "(\<Sum>n. (1 / 8 :: real) ^ n) = 8 / 7"
    using suminf_geometric [of "1 / 8 :: real"] by simp
  finally have tail: "(\<Sum>n. ?f (Suc n)) \<le> y / 2 * (8 / 7)" .
  have "1 / 2 * 1 \<le> ln 2 * sqrt pi"
    using ln_two_bounds(1) sqrt_pi_ge_one by (intro mult_mono) simp_all
  then have "y * (2 * (1 / 2 * 1)) \<le> y * (2 * (ln 2 * sqrt pi))"
    using y(1) by (intro mult_left_mono) simp_all
  moreover have "?f 0 = - (y * (2 * (ln 2 * sqrt pi)))"
    unfolding middle_term_one y_def by (simp add: algebra_simps)
  ultimately have head: "?f 0 \<le> - y" by simp
  have "w2 x = ?f 0 + (\<Sum>n. ?f (Suc n))"
    unfolding w2_def nsum_def using suminf_split_head [OF sf] by simp
  then show ?thesis
    using head tail y(1) by simp
qed

lemma w1_zero: "w1 0 = 0"
  by (simp add: w1_def nsum_def common_term_def alternating_term_def Let_def)

lemma w2_zero: "w2 0 = 0"
  by (simp add: w2_def nsum_def middle_term_def)

lemma trade_length_variance_example:
  "\<exists>v. trade_length_variance \<lparr>theta = 0, mu = 1 / 2, sigma = 1\<rparr> 0 (1 / 4) = Return v \<and> 0 < v"
proof -
  let ?P = "\<lparr>theta = 0, mu = 1 / 2, sigma = 1\<rparr>"
  have n: "normalized ?P x = x" for x
    by (simp add: normalized_def)
  have "0 < w1 (1 / 4)" by (rule w1_pos) simp
  moreover have "w2 (1 / 4) < 0" by (rule w2_neg) simp_all
  ultimately have "0 < (w1 (1 / 4) - w1 0 - w2 (1 / 4) + w2 0) / (1 / 2)\<^sup>2"
    by (simp add: w1_zero w2_zero)
  moreover have "trade_length_variance ?P 0 (1 / 4)
      = Return ((w1 (1 / 4) - w1 0 - w2 (1 / 4) + w2 0) / (1 / 2)\<^sup>2)"
    using trade_length_variance_Return [of ?P 0 "1 / 4"] by (simp only: n) simp
  ultimately show ?thesis by blast
qed


lemma suminf_from_one:
  fixes f :: "nat \<Rightarrow> real"
  assumes "f 0 = 0"
  shows "(\<Sum>n. f (Suc n)) = (\<Sum>n. f n)"
proof -
  have "(\<lambda>n. f (Suc n)) sums s \<longleftrightarrow> f sums s" for s
    by (simp add: sums_Suc_iff assms)
  then have "(sums) (\<lambda>n. f (Suc n)) = (sums) f"
    by (intro ext)
  then show ?thesis
    by (simp only: suminf_def)
qed

text \<open>
  Claim C2. On a model with \<open>mu > 0\<close> and \<open>sigma \<noteq> 0\<close>, \<^verbatim>\<open>trade_length_variance(a, m)\<close>
  returns \<open>(W1(x\<^sub>m) - W1(x\<^sub>a) - W2(x\<^sub>m) + W2(x\<^sub>a)) / mu\<^sup>2\<close>, where \<open>x\<^sub>m\<close> and \<open>x\<^sub>a\<close> are the
  normalized thresholds \<open>(m - theta) sqrt(2 mu) / sigma\<close> and \<open>(a - theta) sqrt(2 mu) / sigma\<close>;
  and \<open>W2(x)\<close> is the sum over \<open>k \<ge> 1\<close> of
  \<open>(digamma((2k - 1)/2) - digamma(1)) Gamma((2k - 1)/2) (1.414 x)^(2k - 1) / (2k - 1)!\<close>.
\<close>

theorem trade_length_variance_formula:
  "(0 < mu p \<longrightarrow> sigma p \<noteq> 0 \<longrightarrow>
      trade_length_variance p a m =
        Return ((w1 (normalized p m) - w1 (normalized p a)
                 - w2 (normalized p m) + w2 (normalized p a)) / (mu p)\<^sup>2))
   \<and> w2 x = (\<Sum>k. if 1 \<le> k
                then (digamma_half (2 * k - 1) - digamma_half 2) * gamma_half (2 * k - 1)
                       * (1414 / 1000 * x) ^ (2 * k - 1) / fact (2 * k - 1)
                else 0)"
proof (intro conjI impI)
  assume "0 < mu p" and "sigma p \<noteq> 0"
  then show "trade_length_variance p a m =
        Return ((w1 (normalized p m) - w1 (normalized p a)
                 - w2 (normalized p m) + w2 (normalized p a)) / (mu p)\<^sup>2)"
    by (rule trade_length_variance_Return)
next
  let ?g = "\<lambda>k. if 1 \<le> k then middle_term x k else 0"
  have "(\<Sum>n. ?g (Suc n)) = (\<Sum>n. ?g n)"
    by (rule suminf_from_one) simp
  then have "w2 x = (\<Sum>k. ?g k)"
    by (simp add: w2_def nsum_def)
  then show "w2 x = (\<Sum>k. if 1 \<le> k
                then (digamma_half (2 * k - 1) - digamma_half 2) * gamma_half (2 * k - 1)
                       * (1414 / 1000 * x) ^ (2 * k - 1) / fact (2 * k - 1)
                else 0)"
    by (simp only: middle_term_def)
qed

theorem trade_length_variance_formula_witness:
  "(0::real) < 1 / 2 \<and> (1::real) \<noteq> 0
   \<and> trade_length_variance \<lparr>theta = 0, mu = 1 / 2, sigma = 1\<rparr> (- 1) 3
       = Return ((w1 3 - w1 (- 1) - w2 3 + w2 (- 1)) / (1 / 2)\<^sup>2)"
  using trade_length_variance_formula [of "\<lparr>theta = 0, mu = 1 / 2, sigma = 1\<rparr>" "- 1" 3]
  by (simp add: normalized_def)

text \<open>
  Claim C5. Whenever \<^verbatim>\<open>trade_length_variance(a, m)\<close> returns \<open>v\<close> and
  \<^verbatim>\<open>expected_trade_length(a, m)\<close> returns \<open>t \<noteq> 0\<close>, \<^verbatim>\<open>return_variance(a, m, c)\<close> returns
  \<open>(m - a - c)\<^sup>2 v / t\<^sup>3\<close>; and whenever \<^verbatim>\<open>expected_return(a, m, c)\<close> returns \<open>er\<close> and
  \<^verbatim>\<open>return_variance(a, m, c)\<close> returns \<open>rv > 0\<close>, \<^verbatim>\<open>sharpe_ratio(a, m, c, rf)\<close> returns
  \<open>(er - rf / t) / sqrt rv\<close>.
\<close>

theorem sharpe_ratio_formula:
  "(trade_length_variance p a m = Return v \<longrightarrow> expected_trade_length p a m = Return t \<longrightarrow>
      t \<noteq> 0 \<longrightarrow> return_variance p a m c = Return ((m - a - c)\<^sup>2 * v / t ^ 3))
   \<and> (expected_trade_length p a m = Return t \<longrightarrow> expected_return p a m c = Return er \<longrightarrow>
        return_variance p a m c = Return rv \<longrightarrow> 0 < rv \<longrightarrow>
      sharpe_ratio p a m c rf = Return ((er - rf / t) / sqrt rv))"
proof (intro conjI impI)
  assume "trade_length_variance p a m = Return v" "expected_trade_length p a m = Return t" "t \<noteq> 0"
  then show "return_variance p a m c = Return ((m - a - c)\<^sup>2 * v / t ^ 3)"
    by (simp add: return_variance_def np_div_def)
next
  assume t: "expected_trade_length p a m = Return t"
    and er: "expected_return p a m c = Return er"
    and rv: "return_variance p a m c = Return rv" and pos: "0 < rv"
  from t er have "t \<noteq> 0"
    by (auto simp: expected_return_def np_div_def split: if_splits)
  moreover have "sqrt rv \<noteq> 0" "\<not> rv < 0" using pos by simp_all
  ultimately show "sharpe_ratio p a m c rf = Return ((er - rf / t) / sqrt rv)"
    using t er rv by (simp add: sharpe_ratio_def np_div_def np_sqrt_def)
qed

theorem sharpe_ratio_formula_witness:
  "\<exists>t v er rv.
     trade_length_variance \<lparr>theta = 0, mu = 1 / 2, sigma = 1\<rparr> 0 (1 / 4) = Return v
   \<and> expected_trade_length \<lparr>theta = 0, mu = 1 / 2, sigma = 1\<rparr> 0 (1 / 4) = Return t \<and> t \<noteq> 0
   \<and> expected_return \<lparr>theta = 0, mu = 1 / 2, sigma = 1\<rparr> 0 (1 / 4) (1 / 10) = Return er
   \<and> return_variance \<lparr>theta = 0, mu = 1 / 2, sigma = 1\<rparr> 0 (1 / 4) (1 / 10) = Return rv
   \<and> rv = (1 / 4 - 0 - 1 / 10)\<^sup>2 * v / t ^ 3 \<and> 0 < rv
   \<and> sharpe_ratio \<lparr>theta = 0, mu = 1 / 2, sigma = 1\<rparr> 0 (1 / 4) (1 / 10) (1 / 100)
       = Return ((er - (1 / 100) / t) / sqrt rv)"
proof -
  let ?P = "\<lparr>theta = 0, mu = 1 / 2, sigma = 1\<rparr>"
  obtain t where t: "expected_trade_length ?P 0 (1 / 4) = Return t" "0 < t"
    using expected_trade_length_Return_pos [of ?P 0 "1 / 4"] by auto
  obtain v where v: "trade_length_variance ?P 0 (1 / 4) = Return v" "0 < v"
    using trade_length_variance_example by blast
  define er where "er = (1 / 4 - 0 - 1 / 10) / t"
  define rv where "rv = (1 / 4 - 0 - 1 / 10)\<^sup>2 * v / t ^ 3"
  have tn: "t \<noteq> 0" using t(2) by simp
  have er: "expected_return ?P 0 (1 / 4) (1 / 10) = Return er"
    using t(1) tn by (simp add: expected_return_def np_div_def er_def)
  have rv: "return_variance ?P 0 (1 / 4) (1 / 10) = Return rv"
    using sharpe_ratio_formula [of ?P 0 "1 / 4" v t "1 / 10"] v(1) t(1) tn
    unfolding rv_def by blast
  have pos: "0 < rv"
    unfolding rv_def using t(2) v(2) by (intro divide_pos_pos mult_pos_pos) simp_all
  have "sharpe_ratio ?P 0 (1 / 4) (1 / 10) (1 / 100) = Return ((er - (1 / 100) / t) / sqrt rv)"
    using sharpe_ratio_formula [of ?P 0 "1 / 4" v t "1 / 10" er rv "1 / 100"] t(1) er rv pos
    by blast
  with t(1) tn v(1) er rv pos show ?thesis
    unfolding rv_def by blast
qed

end
